theory Spec2Isabelle
  imports Complex_Main "HOL-Library.Sublist" "HOL-Library.Multiset"
begin

section \<open>Python text\<close>

text \<open>
  The program is one Python file, \<^verbatim>\<open>main.py\<close>. A Python \<^verbatim>\<open>str\<close> is modelled as a
  \<^typ>\<open>string\<close> holding the UTF-8 bytes of the text. The character classes of Python
  (\<^verbatim>\<open>str.isspace\<close>, the \<^verbatim>\<open>\s\<close> and \<^verbatim>\<open>\d\<close> of \<^verbatim>\<open>re\<close>, \<^verbatim>\<open>str.lower\<close>) are modelled on
  their ASCII part: a byte above 127 is neither white space nor a digit and has no case.
\<close>

definition newline :: char where
  "newline = CHR 0x0A"

definition is_space :: "char \<Rightarrow> bool" where
  \<comment> \<open>\<^verbatim>\<open>str.isspace\<close> and \<^verbatim>\<open>\s\<close>: TAB, LF, VT, FF, CR, FS, GS, RS, US and the space\<close>
  "is_space c = (let n = (of_char c :: nat) in (9 \<le> n \<and> n \<le> 13) \<or> (28 \<le> n \<and> n \<le> 32))"

definition is_c_space :: "char \<Rightarrow> bool" where
  \<comment> \<open>the white space that \<^verbatim>\<open>int()\<close> and \<^verbatim>\<open>float()\<close> skip around an ASCII numeral\<close>
  "is_c_space c = (let n = (of_char c :: nat) in (9 \<le> n \<and> n \<le> 13) \<or> n = 32)"

definition is_digit :: "char \<Rightarrow> bool" where
  "is_digit c = (let n = (of_char c :: nat) in 48 \<le> n \<and> n \<le> 57)"

definition lower_char :: "char \<Rightarrow> char" where
  "lower_char c = (let n = (of_char c :: nat) in if 65 \<le> n \<and> n \<le> 90 then char_of (n + 32) else c)"

definition py_lower :: "string \<Rightarrow> string" where
  "py_lower s = map lower_char s"

definition strip_with :: "(char \<Rightarrow> bool) \<Rightarrow> string \<Rightarrow> string" where
  "strip_with ws s = rev (dropWhile ws (rev (dropWhile ws s)))"

definition py_strip :: "string \<Rightarrow> string" where
  \<comment> \<open>\<^verbatim>\<open>s.strip()\<close>\<close>
  "py_strip s = strip_with is_space s"

fun py_replace :: "string \<Rightarrow> string \<Rightarrow> string \<Rightarrow> string" where
  \<comment> \<open>\<^verbatim>\<open>s.replace(old, new)\<close> for a non-empty \<^verbatim>\<open>old\<close>: leftmost occurrences, not overlapping\<close>
  "py_replace old new [] = []"
| "py_replace old new (c # cs) =
     (if old \<noteq> [] \<and> prefix old (c # cs)
      then new @ py_replace old new (drop (length old - 1) cs)
      else c # py_replace old new cs)"

subsection \<open>The name normalizer\<close>


text \<open>\<^verbatim>\<open>re.sub(r'\s+', ' ', name)\<close>: every maximal run of white space becomes one space.\<close>

function collapse_ws :: "string \<Rightarrow> string" where
  "collapse_ws [] = []"
| "collapse_ws (c # cs) =
     (if is_space c then CHR '' '' # collapse_ws (dropWhile is_space cs)
      else c # collapse_ws cs)"
  by pat_completeness auto
termination
  by (relation "measure length") (auto simp: le_imp_less_Suc length_dropWhile_le)


section \<open>Python numbers\<close>

datatype error = ValueError | OverflowError | ZeroDivisionError

text \<open>
  A Python \<^verbatim>\<open>float\<close> is a finite value, one of the two infinities, or NaN. A finite
  value is modelled by the rational it stands for: the rounding of IEEE doubles is not
  modelled, their range is (a value beyond it is an infinity, as \<^verbatim>\<open>float()\<close> gives).
\<close>

datatype pyfloat = NaN | NegInf | Fin rat | PosInf

definition overflow_bound :: rat where
  "overflow_bound = 2 ^ 1024 - 2 ^ 970"

definition mk_float :: "rat \<Rightarrow> pyfloat" where
  "mk_float r =
     (if overflow_bound \<le> r then PosInf
      else if r \<le> - overflow_bound then NegInf
      else Fin r)"

fun py_lt :: "pyfloat \<Rightarrow> pyfloat \<Rightarrow> bool" where
  \<comment> \<open>\<^verbatim>\<open>a < b\<close>; false whenever one side is NaN\<close>
  "py_lt NaN b = False"
| "py_lt a NaN = False"
| "py_lt a NegInf = False"
| "py_lt NegInf b = True"
| "py_lt PosInf b = False"
| "py_lt (Fin x) PosInf = True"
| "py_lt (Fin x) (Fin y) = (x < y)"

fun py_le :: "pyfloat \<Rightarrow> pyfloat \<Rightarrow> bool" where
  \<comment> \<open>\<^verbatim>\<open>a <= b\<close>; false whenever one side is NaN\<close>
  "py_le NaN b = False"
| "py_le a NaN = False"
| "py_le NegInf b = True"
| "py_le a PosInf = True"
| "py_le a NegInf = False"
| "py_le PosInf b = False"
| "py_le (Fin x) (Fin y) = (x \<le> y)"

definition py_min :: "pyfloat \<Rightarrow> pyfloat \<Rightarrow> pyfloat" where
  \<comment> \<open>\<^verbatim>\<open>min(a, b)\<close>: the first argument unless the second is smaller\<close>
  "py_min a b = (if py_lt b a then b else a)"

fun py_add :: "pyfloat \<Rightarrow> pyfloat \<Rightarrow> pyfloat" where
  "py_add NaN b = NaN"
| "py_add a NaN = NaN"
| "py_add PosInf NegInf = NaN"
| "py_add NegInf PosInf = NaN"
| "py_add PosInf b = PosInf"
| "py_add a PosInf = PosInf"
| "py_add NegInf b = NegInf"
| "py_add a NegInf = NegInf"
| "py_add (Fin x) (Fin y) = mk_float (x + y)"

definition py_sum :: "pyfloat list \<Rightarrow> pyfloat" where
  \<comment> \<open>\<^verbatim>\<open>sum(values)\<close>, which starts from 0\<close>
  "py_sum vs = foldl py_add (Fin 0) vs"

fun float_div :: "pyfloat \<Rightarrow> rat \<Rightarrow> pyfloat" where
  \<comment> \<open>division by a finite divisor other than 0\<close>
  "float_div NaN d = NaN"
| "float_div PosInf d = (if 0 < d then PosInf else NegInf)"
| "float_div NegInf d = (if 0 < d then NegInf else PosInf)"
| "float_div (Fin x) d = mk_float (x / d)"

definition py_truediv :: "pyfloat \<Rightarrow> int \<Rightarrow> error + pyfloat" where
  \<comment> \<open>\<^verbatim>\<open>x / q\<close> for a float \<^verbatim>\<open>x\<close> and an int \<^verbatim>\<open>q\<close>: the int is converted to a float
      first (OverflowError beyond the range), then a zero divisor raises\<close>
  "py_truediv x q =
     (if overflow_bound \<le> \<bar>of_int q\<bar> then Inl OverflowError
      else if q = 0 then Inl ZeroDivisionError
      else Inr (float_div x (of_int q)))"

subsection \<open>Numerals\<close>

text \<open>
  \<^verbatim>\<open>int(s)\<close> and \<^verbatim>\<open>float(s)\<close> on ASCII text. Both skip white space around the numeral,
  allow one underscore between two digits, and take an optional sign. \<^verbatim>\<open>int\<close> then wants
  decimal digits only, at most 4300 of them (the interpreter's default limit on the
  conversion). \<^verbatim>\<open>float\<close> wants \<^verbatim>\<open>inf\<close>, \<^verbatim>\<open>infinity\<close> or \<^verbatim>\<open>nan\<close> in any case of letters, or
  digits with an optional point and an optional exponent.
\<close>

definition digits_value :: "string \<Rightarrow> nat" where
  "digits_value ds = foldl (\<lambda>n c. 10 * n + (of_char c - 48)) 0 ds"

fun underscores_from :: "char \<Rightarrow> string \<Rightarrow> string option" where
  \<comment> \<open>an underscore is allowed only between two digits; the result drops them\<close>
  "underscores_from prev [] = (if prev = CHR ''_'' then None else Some [])"
| "underscores_from prev (c # cs) =
     (if c = CHR ''_''
      then (if is_digit prev then underscores_from c cs else None)
      else if prev = CHR ''_'' \<and> \<not> is_digit c then None
      else map_option ((#) c) (underscores_from c cs))"

definition strip_underscores :: "string \<Rightarrow> string option" where
  "strip_underscores s = underscores_from (CHR 0x00) s"

definition split_sign :: "string \<Rightarrow> bool \<times> string" where
  "split_sign s =
     (case s of
        [] \<Rightarrow> (False, [])
      | c # cs \<Rightarrow>
          if c = CHR ''-'' then (True, cs)
          else if c = CHR ''+'' then (False, cs)
          else (False, s))"

definition signed_digits :: "string \<Rightarrow> int option" where
  \<comment> \<open>an optional sign and one or more digits, nothing else\<close>
  "signed_digits s =
     (case split_sign s of
        (neg, ds) \<Rightarrow>
          if ds \<noteq> [] \<and> list_all is_digit ds
          then Some (if neg then - int (digits_value ds) else int (digits_value ds))
          else None)"

definition int_max_str_digits :: nat where
  "int_max_str_digits = 4300"

definition py_int :: "string \<Rightarrow> int option" where
  \<comment> \<open>\<^verbatim>\<open>int(s)\<close>; \<open>None\<close> is ValueError, also past the limit on the number of digits\<close>
  "py_int s =
     (case strip_underscores (strip_with is_c_space s) of
        None \<Rightarrow> None
      | Some t \<Rightarrow>
          if length (snd (split_sign t)) \<le> int_max_str_digits then signed_digits t
          else None)"

definition pow10 :: "int \<Rightarrow> rat" where
  "pow10 e = (if 0 \<le> e then 10 ^ nat e else 1 / 10 ^ nat (- e))"

definition parse_exponent :: "string \<Rightarrow> int option" where
  "parse_exponent s =
     (case s of
        [] \<Rightarrow> Some 0
      | c # cs \<Rightarrow> if c = CHR ''e'' \<or> c = CHR ''E'' then signed_digits cs else None)"

definition parse_decimal :: "string \<Rightarrow> rat option" where
  \<comment> \<open>digits, an optional point and digits (one digit at least), an optional exponent\<close>
  "parse_decimal s =
     (let ip = takeWhile is_digit s;
          r1 = dropWhile is_digit s;
          fp = (case r1 of [] \<Rightarrow> [] | c # cs \<Rightarrow> if c = CHR ''.'' then takeWhile is_digit cs else []);
          r2 = (case r1 of [] \<Rightarrow> [] | c # cs \<Rightarrow> if c = CHR ''.'' then dropWhile is_digit cs else r1)
      in if ip @ fp = [] then None
         else (case parse_exponent r2 of
                 None \<Rightarrow> None
               | Some e \<Rightarrow> Some (of_nat (digits_value (ip @ fp)) * pow10 (e - int (length fp)))))"

definition py_float :: "string \<Rightarrow> pyfloat option" where
  \<comment> \<open>\<^verbatim>\<open>float(s)\<close>; \<open>None\<close> is ValueError\<close>
  "py_float s =
     (case strip_underscores (strip_with is_c_space s) of
        None \<Rightarrow> None
      | Some t \<Rightarrow>
          (case split_sign t of
             (neg, body) \<Rightarrow>
               if py_lower body = ''inf'' \<or> py_lower body = ''infinity''
               then Some (if neg then NegInf else PosInf)
               else if py_lower body = ''nan'' then Some NaN
               else (case parse_decimal body of
                       None \<Rightarrow> None
                     | Some r \<Rightarrow> Some (mk_float (if neg then - r else r)))))"

section \<open>Insertion-ordered dictionaries\<close>

text \<open>
  A Python \<^verbatim>\<open>dict\<close> keeps its keys in insertion order, and \<^verbatim>\<open>sorted\<close> is stable, so
  the order of a dictionary shows in the report. A dictionary is modelled as an
  association list with one entry per key, read with \<^const>\<open>map_of\<close>.
\<close>

fun dict_set :: "('k \<times> 'v) list \<Rightarrow> 'k \<Rightarrow> 'v \<Rightarrow> ('k \<times> 'v) list" where
  \<comment> \<open>\<^verbatim>\<open>d[k] = v\<close>: an existing key keeps its place, a new key goes last\<close>
  "dict_set [] k v = [(k, v)]"
| "dict_set ((k', v') # d) k v =
     (if k' = k then (k, v) # d else (k', v') # dict_set d k v)"

definition dict_get :: "('k \<times> 'v) list \<Rightarrow> 'k \<Rightarrow> 'v \<Rightarrow> 'v" where
  \<comment> \<open>reading a \<^verbatim>\<open>defaultdict\<close>: the default stands for a missing key\<close>
  "dict_get d k dflt = (case map_of d k of None \<Rightarrow> dflt | Some v \<Rightarrow> v)"

section \<open>The decklist loader\<close>

record card =
  card_qty :: int
  card_name :: string
  card_normalized :: string
  card_set :: string













section \<open>The table parser\<close>

text \<open>
  The HTML is parsed by BeautifulSoup, which is not part of the program: the model takes
  what the selectors of \<^verbatim>\<open>parse_single_card_table\<close> return. A cell carries the text of its
  quantity span (\<^verbatim>\<open>select_one("span[data-bind='text: qty']")\<close>) and of its first anchor
  (\<^verbatim>\<open>find("a")\<close>) when it has one, and its own text, each as \<^verbatim>\<open>get_text(strip=True)\<close>
  gives it. The second argument of the function is only printed and is left out.
\<close>

record cell =
  qty_span :: "string option"
  cell_text :: string
  first_anchor :: "string option"

type_synonym row = "cell list"

datatype html = EmptyMarkup | Markup "row list option"
  \<comment> \<open>the empty string, or a page with the rows (\<^verbatim>\<open>tbody tr\<close>) of its
      \<^verbatim>\<open>table.js-singles-search\<close> when it has that table\<close>

definition rouble :: string where
  \<comment> \<open>the Cyrillic letter er (U+0440) and a full stop\<close>
  "rouble = [CHR 0xD1, CHR 0x80, CHR ''.'']"

definition row_qty :: "row \<Rightarrow> error + int" where
  "row_qty tds =
     (case qty_span (tds ! 0) of
        None \<Rightarrow> Inr 1
      | Some t \<Rightarrow> (case py_int t of None \<Rightarrow> Inl ValueError | Some q \<Rightarrow> Inr q))"

definition row_price :: "row \<Rightarrow> pyfloat option" where
  "row_price tds = py_float (py_strip (py_replace rouble [] (cell_text (tds ! 1))))"

definition unit_price :: "pyfloat \<Rightarrow> int \<Rightarrow> error + pyfloat" where
  \<comment> \<open>\<^verbatim>\<open>price / qty if qty > 0 else price\<close>\<close>
  "unit_price price q = (if 0 < q then py_truediv price q else Inr price)"

definition parse_row :: "row \<Rightarrow> error + (string \<times> pyfloat) option" where
  \<comment> \<open>one turn of the loop over the rows: \<open>Inr None\<close> is \<^verbatim>\<open>continue\<close>, \<open>Inr (Some (seller, u))\<close>
      reaches the last line of the body with the seller and the price per unit\<close>
  "parse_row tds =
     (if length tds < 4 then Inr None
      else (case row_qty tds of
              Inl e \<Rightarrow> Inl e
            | Inr q \<Rightarrow>
                (case row_price tds of
                   None \<Rightarrow> Inr None
                 | Some price \<Rightarrow>
                     (case first_anchor (tds ! 2) of
                        None \<Rightarrow> Inr None
                      | Some seller \<Rightarrow>
                          (case unit_price price q of
                             Inl e \<Rightarrow> Inl e
                           | Inr u \<Rightarrow> Inr (Some (seller, u)))))))"

fun parse_rows :: "(string \<times> pyfloat) list \<Rightarrow> row list \<Rightarrow> error + (string \<times> pyfloat) list" where
  "parse_rows acc [] = Inr acc"
| "parse_rows acc (r # rs) =
     (case parse_row r of
        Inl e \<Rightarrow> Inl e
      | Inr None \<Rightarrow> parse_rows acc rs
      | Inr (Some (seller, u)) \<Rightarrow>
          parse_rows (dict_set acc seller (py_min (dict_get acc seller PosInf) u)) rs)"

definition parse_single_card_table :: "html \<Rightarrow> error + (string \<times> pyfloat) list" where
  "parse_single_card_table page =
     (case page of
        EmptyMarkup \<Rightarrow> Inr []
      | Markup None \<Rightarrow> Inr []
      | Markup (Some rows) \<Rightarrow> if rows = [] then Inr [] else parse_rows [] rows)"

section \<open>The aggregator\<close>

type_synonym seller_data = "(string \<times> (string \<times> pyfloat) list) list"

definition endpoint :: string where
  "endpoint = ''https://topdeck.ru/apps/toptrade/singles/search?q=''"

definition card_query :: "card \<Rightarrow> string" where
  "card_query c =
     (if card_set c \<noteq> [] then card_name c @ '' ('' @ card_set c @ '')'' else card_name c)"

definition search_url :: "card \<Rightarrow> string" where
  "search_url c = endpoint @ py_replace '' '' ''+'' (card_query c)"

definition fold_offer :: "string \<Rightarrow> seller_data \<Rightarrow> string \<times> pyfloat \<Rightarrow> seller_data" where
  \<comment> \<open>the body of the loop over \<^verbatim>\<open>prices.items()\<close>. Reading \<^verbatim>\<open>seller_data[seller]\<close>
      enters an empty dictionary for a new seller, whose test then succeeds\<close>
  "fold_offer norm_name sd offer =
     (case offer of
        (seller, price) \<Rightarrow>
          (let cards = dict_get sd seller []
           in case map_of cards norm_name of
                None \<Rightarrow> dict_set sd seller (dict_set cards norm_name price)
              | Some old \<Rightarrow>
                  if py_lt price old then dict_set sd seller (dict_set cards norm_name price)
                  else dict_set sd seller cards))"

definition fold_prices :: "string \<Rightarrow> seller_data \<Rightarrow> (string \<times> pyfloat) list \<Rightarrow> seller_data" where
  "fold_prices norm_name sd prices = foldl (fold_offer norm_name) sd prices"

definition process_card :: "seller_data \<Rightarrow> card \<times> html option \<Rightarrow> error + seller_data" where
  \<comment> \<open>one turn of the loop of \<^verbatim>\<open>main\<close> over the deck, with what the page fetcher returned
      for the card's URL (\<open>None\<close> for a failed fetch)\<close>
  "process_card sd x =
     (case x of
        (c, None) \<Rightarrow> Inr sd
      | (c, Some page) \<Rightarrow>
          if page = EmptyMarkup then Inr sd
          else (case parse_single_card_table page of
                  Inl e \<Rightarrow> Inl e
                | Inr prices \<Rightarrow>
                    if prices = [] then Inr sd
                    else Inr (fold_prices (card_normalized c) sd prices)))"

fun main_loop :: "seller_data \<Rightarrow> (card \<times> html option) list \<Rightarrow> error + seller_data" where
  "main_loop sd [] = Inr sd"
| "main_loop sd (x # xs) =
     (case process_card sd x of
        Inl e \<Rightarrow> Inl e
      | Inr sd' \<Rightarrow> main_loop sd' xs)"

section \<open>The report\<close>

text \<open>
  \<^verbatim>\<open>sorted(xs, key=f)\<close> is stable and compares keys with \<^verbatim>\<open><\<close> only. On keys that the
  comparison orders totally its result is the one stable sorted arrangement, which
  insertion from the right computes. With \<^verbatim>\<open>reverse=True\<close> the list is reversed before
  and after sorting.
\<close>

fun insort_lt :: "('k \<Rightarrow> 'k \<Rightarrow> bool) \<Rightarrow> ('a \<Rightarrow> 'k) \<Rightarrow> 'a \<Rightarrow> 'a list \<Rightarrow> 'a list" where
  "insort_lt lt key x [] = [x]"
| "insort_lt lt key x (y # ys) =
     (if lt (key y) (key x) then y # insort_lt lt key x ys else x # y # ys)"

definition py_sorted :: "('k \<Rightarrow> 'k \<Rightarrow> bool) \<Rightarrow> ('a \<Rightarrow> 'k) \<Rightarrow> 'a list \<Rightarrow> 'a list" where
  "py_sorted lt key xs = foldr (insort_lt lt key) xs []"

definition py_sorted_reverse :: "('k \<Rightarrow> 'k \<Rightarrow> bool) \<Rightarrow> ('a \<Rightarrow> 'k) \<Rightarrow> 'a list \<Rightarrow> 'a list" where
  "py_sorted_reverse lt key xs = rev (py_sorted lt key (rev xs))"

definition by_coverage :: "seller_data \<Rightarrow> seller_data" where
  \<comment> \<open>\<^verbatim>\<open>sorted(seller_data.items(), key=lambda x: len(x[1]), reverse=True)\<close>\<close>
  "by_coverage sd = py_sorted_reverse (<) (\<lambda>x. length (snd x)) sd"

definition by_price :: "(string \<times> pyfloat) list \<Rightarrow> (string \<times> pyfloat) list" where
  \<comment> \<open>\<^verbatim>\<open>sorted(cards.items(), key=lambda x: x[1])\<close>\<close>
  "by_price cards = py_sorted py_lt snd cards"

definition console_detail :: "seller_data \<Rightarrow> (string \<times> nat \<times> (string \<times> pyfloat) list) list" where
  \<comment> \<open>the first printed table: per seller the heading (name and number of cards) and the
      card lines\<close>
  "console_detail sd =
     map (\<lambda>x. (fst x, length (snd x), by_price (snd x))) (by_coverage sd)"

definition console_summary :: "seller_data \<Rightarrow> (string \<times> nat \<times> pyfloat) list" where
  \<comment> \<open>the second printed table: seller, number of covered cards, total\<close>
  "console_summary sd =
     map (\<lambda>x. (fst x, length (snd x), py_sum (map snd (snd x))))
       (filter (\<lambda>x. 1 \<le> length (snd x)) (by_coverage sd))"

definition file_detail :: "seller_data \<Rightarrow> (string \<times> nat \<times> (string \<times> pyfloat) list) list" where
  \<comment> \<open>the blocks written to \<^verbatim>\<open>sellers_report.txt\<close>\<close>
  "file_detail sd =
     map (\<lambda>x. (fst x, length (snd x), by_price (snd x))) (by_coverage sd)"

section \<open>Vocabulary of the properties\<close>

definition lookup_price :: "seller_data \<Rightarrow> string \<Rightarrow> string \<Rightarrow> pyfloat option" where
  \<comment> \<open>the price stored for a seller and a normalized card name, if any\<close>
  "lookup_price sd seller n =
     (case map_of sd seller of None \<Rightarrow> None | Some cards \<Rightarrow> map_of cards n)"

definition kept_price :: "pyfloat option \<Rightarrow> pyfloat \<Rightarrow> pyfloat" where
  \<comment> \<open>what is stored after an offer: the offer where nothing was stored or it is strictly
      lower, the stored price otherwise\<close>
  "kept_price stored price =
     (case stored of None \<Rightarrow> price | Some old \<Rightarrow> if py_lt price old then price else old)"

definition is_least :: "pyfloat \<Rightarrow> pyfloat list \<Rightarrow> bool" where
  "is_least v ps = (v \<in> set ps \<and> list_all (py_le v) ps)"

definition offers_for :: "string \<Rightarrow> string \<Rightarrow> (string \<times> string \<times> pyfloat) list \<Rightarrow> pyfloat list" where
  \<comment> \<open>the prices among the folded offers (seller, normalized name, price) of one pair\<close>
  "offers_for seller n seen =
     map (\<lambda>x. snd (snd x)) (filter (\<lambda>x. fst x = seller \<and> fst (snd x) = n) seen)"

definition tag_offers :: "string \<Rightarrow> (string \<times> pyfloat) list \<Rightarrow> (string \<times> string \<times> pyfloat) list" where
  "tag_offers n prices = map (\<lambda>x. (fst x, n, snd x)) prices"

definition accepted_offers :: "row list \<Rightarrow> (string \<times> pyfloat) list" where
  \<comment> \<open>seller and unit price of the rows that are not skipped, in the order of the rows\<close>
  "accepted_offers rows =
     List.map_filter (\<lambda>r. case parse_row r of Inr (Some x) \<Rightarrow> Some x | _ \<Rightarrow> None) rows"

definition offer_step :: "(string \<times> pyfloat) list \<Rightarrow> string \<times> pyfloat \<Rightarrow> (string \<times> pyfloat) list" where
  \<comment> \<open>the last line of the loop over the rows, for one accepted offer\<close>
  "offer_step acc x = dict_set acc (fst x) (py_min (dict_get acc (fst x) PosInf) (snd x))"

definition page_rows :: "html \<Rightarrow> row list" where
  "page_rows page = (case page of Markup (Some rows) \<Rightarrow> rows | _ \<Rightarrow> [])"


definition offer_row :: "string option \<Rightarrow> string \<Rightarrow> string option \<Rightarrow> row" where
  \<comment> \<open>a row of four cells: the quantity span in the first, the price text in the second,
      the seller's anchor in the third\<close>
  "offer_row q p a =
     [\<lparr>qty_span = q, cell_text = [], first_anchor = None\<rparr>,
      \<lparr>qty_span = None, cell_text = p, first_anchor = None\<rparr>,
      \<lparr>qty_span = None, cell_text = [], first_anchor = a\<rparr>,
      \<lparr>qty_span = None, cell_text = [], first_anchor = None\<rparr>]"

definition five_roubles :: string where
  \<comment> \<open>a price as the page shows it: the number, a space and the currency mark\<close>
  "five_roubles = ''5 '' @ rouble"

definition example_page :: html where
  \<comment> \<open>two offers of seller A (100 for one copy, 150 for two), a row without a seller's
      anchor and a row whose price is no number\<close>
  "example_page =
     Markup (Some [offer_row (Some ''1'') ''100'' (Some ''A''),
                   offer_row (Some ''1'') ''90'' None,
                   offer_row (Some ''2'') ''150'' (Some ''A''),
                   offer_row None ''n/a'' (Some ''A'')])"

definition prices_of :: "string \<Rightarrow> (string \<times> pyfloat) list \<Rightarrow> pyfloat list" where
  "prices_of seller offers = map snd (filter (\<lambda>x. fst x = seller) offers)"

definition well_formed :: "seller_data \<Rightarrow> bool" where
  \<comment> \<open>one entry per seller, one price per card of a seller, and no price is NaN\<close>
  "well_formed sd =
     (distinct (map fst sd)
      \<and> list_all (\<lambda>x. distinct (map fst (snd x)) \<and> list_all (\<lambda>y. snd y \<noteq> NaN) (snd x)) sd)"

definition coverage_descending :: "(string \<times> nat \<times> 'a) list \<Rightarrow> bool" where
  \<comment> \<open>the numbers of covered cards never go up along the list\<close>
  "coverage_descending blocks = sorted_wrt (\<lambda>a b. fst (snd b) \<le> fst (snd a)) blocks"

definition price_ascending :: "(string \<times> pyfloat) list \<Rightarrow> bool" where
  \<comment> \<open>the prices never go down along the list\<close>
  "price_ascending card_lines = sorted_wrt (\<lambda>a b. py_le (snd a) (snd b)) card_lines"

definition example_run :: "(card \<times> html option) list" where
  \<comment> \<open>a deck of two cards, each offered by seller X alone, at 50 and at 30\<close>
  "example_run =
     [(\<lparr>card_qty = 1, card_name = ''Brainstorm'', card_normalized = ''brainstorm'',
         card_set = []\<rparr>,
       Some (Markup (Some [offer_row None ''50'' (Some ''X'')]))),
      (\<lparr>card_qty = 1, card_name = ''Ponder'', card_normalized = ''ponder'', card_set = []\<rparr>,
       Some (Markup (Some [offer_row None ''30'' (Some ''X'')])))]"




text \<open>
  The reading of ``URL-encoded, spaces replaced with +'' that the comparison with
  \<^const>\<open>search_url\<close> uses: letters, digits and \<^verbatim>\<open>-._~\<close> stand for themselves, a space
  becomes \<^verbatim>\<open>+\<close>, every other byte becomes \<^verbatim>\<open>%\<close> and two hexadecimal digits. This
  definition follows the specification's words, not the program.
\<close>

definition unreserved :: "char \<Rightarrow> bool" where
  "unreserved c =
     (let n = (of_char c :: nat)
      in (48 \<le> n \<and> n \<le> 57) \<or> (65 \<le> n \<and> n \<le> 90) \<or> (97 \<le> n \<and> n \<le> 122)
         \<or> c = CHR ''-'' \<or> c = CHR ''.'' \<or> c = CHR ''_'' \<or> c = CHR ''~'')"

definition hex_digit :: "nat \<Rightarrow> char" where
  "hex_digit n = ''0123456789ABCDEF'' ! (n mod 16)"

definition spec_url_encode :: "string \<Rightarrow> string" where
  "spec_url_encode s =
     concat (map (\<lambda>c. if unreserved c then [c]
                       else if c = CHR '' '' then ''+''
                       else [CHR ''%'', hex_digit (of_char c div 16), hex_digit (of_char c)]) s)"

section \<open>The name normalizer is idempotent on one-line names\<close>

lemma of_char_lower: "(of_char (lower_char c) :: nat) = (if 65 \<le> (of_char c :: nat) \<and> (of_char c :: nat) \<le> 90 then of_char c + 32 else of_char c)"
  by (simp add: lower_char_def Let_def)

lemma is_space_lower [simp]: "is_space (lower_char c) = is_space c"
  unfolding is_space_def Let_def of_char_lower by auto

lemma lower_char_eq_slash [simp]: "(lower_char c = CHR ''/'') = (c = CHR ''/'')"
proof -
  have "(lower_char c = CHR ''/'') = ((of_char (lower_char c) :: nat) = of_char CHR ''/'')"
    by (simp only: of_char_eq_iff)
  also have "\<dots> = ((of_char c :: nat) = of_char CHR ''/'')"
    unfolding of_char_lower by auto
  also have "\<dots> = (c = CHR ''/'')" by (simp only: of_char_eq_iff)
  finally show ?thesis .
qed

lemma lower_char_eq_space [simp]: "(lower_char c = CHR '' '') = (c = CHR '' '')"
proof -
  have "(lower_char c = CHR '' '') = ((of_char (lower_char c) :: nat) = of_char CHR '' '')"
    by (simp only: of_char_eq_iff)
  also have "\<dots> = ((of_char c :: nat) = of_char CHR '' '')"
    unfolding of_char_lower by auto
  also have "\<dots> = (c = CHR '' '')" by (simp only: of_char_eq_iff)
  finally show ?thesis .
qed

lemma lower_char_idem [simp]: "lower_char (lower_char c) = lower_char c"
proof -
  have "(of_char (lower_char (lower_char c)) :: nat) = of_char (lower_char c)"
    unfolding of_char_lower by auto
  then show ?thesis by (simp only: of_char_eq_iff)
qed


lemma slash_not_space [simp]: "\<not> is_space CHR ''/''"
  by (simp add: is_space_def)

lemma space_is_space [simp]: "is_space CHR '' ''"
  by (simp add: is_space_def)

lemma newline_is_space [simp]: "is_space newline"
  by (simp add: is_space_def newline_def)



















lemma collapse_ws_Nil_iff [simp]: "(collapse_ws s = []) = (s = [])"
  by (cases s) auto
















section \<open>The loader requires a quantity, which may be zero\<close>


















section \<open>The table parser keeps the least unit price of each seller\<close>

lemma map_of_dict_set: "map_of (dict_set d k v) = (map_of d)(k \<mapsto> v)"
  by (induction d) auto

lemma set_dict_set: "set (dict_set d k v) \<subseteq> insert (k, v) (set d)"
  by (induction d) (auto split: if_splits)

lemma keys_dict_set:
  "map fst (dict_set d k v) = (if k \<in> fst ` set d then map fst d else map fst d @ [k])"
  by (induction d) (force simp: image_iff)+

lemma distinct_dict_set: "distinct (map fst d) \<Longrightarrow> distinct (map fst (dict_set d k v))"
  by (simp add: keys_dict_set)

lemma dict_set_same: "map_of d k = Some v \<Longrightarrow> dict_set d k v = d"
  by (induction d) (auto split: if_splits)

lemma parse_rows_fold:
  "parse_rows acc rows = Inr d \<Longrightarrow> d = foldl offer_step acc (accepted_offers rows)"
proof (induction rows arbitrary: acc)
  case Nil
  then show ?case by (simp add: accepted_offers_def map_filter_simps)
next
  case (Cons r rows)
  show ?case
  proof (cases "parse_row r")
    case (Inl e)
    with Cons.prems show ?thesis by simp
  next
    case (Inr res)
    show ?thesis
    proof (cases res)
      case None
      with Inr Cons show ?thesis by (simp add: accepted_offers_def map_filter_simps)
    next
      case (Some x)
      with Inr Cons.prems Cons.IH [of "offer_step acc x"] show ?thesis
        by (cases x) (simp add: accepted_offers_def map_filter_simps offer_step_def)
    qed
  qed
qed

lemma py_min_cases: "py_min a b = a \<or> (py_min a b = b \<and> py_lt b a)"
  by (simp add: py_min_def)

lemma py_lt_not_NaN: "py_lt a b \<Longrightarrow> a \<noteq> NaN \<and> b \<noteq> NaN"
  by (cases a; cases b) auto

lemma py_le_refl: "a \<noteq> NaN \<Longrightarrow> py_le a a"
  by (cases a) auto

lemma py_le_trans: "py_le a b \<Longrightarrow> py_le b c \<Longrightarrow> py_le a c"
  by (cases a; cases b; cases c) auto

lemma py_lt_le: "py_lt a b \<Longrightarrow> py_le a b"
  by (cases a; cases b) auto

lemma not_py_lt_le: "a \<noteq> NaN \<Longrightarrow> b \<noteq> NaN \<Longrightarrow> \<not> py_lt b a \<Longrightarrow> py_le a b"
  by (cases a; cases b) auto

lemma py_le_PosInf: "a \<noteq> NaN \<Longrightarrow> py_le a PosInf"
  by (cases a) auto







lemma fold_offers_distinct:
  "distinct (map fst acc) \<Longrightarrow> distinct (map fst (foldl offer_step acc offers))"
  by (induction offers arbitrary: acc) (auto simp: offer_step_def distinct_dict_set)

lemma fold_offers_no_NaN:
  "\<forall>x \<in> set acc. snd x \<noteq> NaN \<Longrightarrow> \<forall>x \<in> set (foldl offer_step acc offers). snd x \<noteq> NaN"
proof (induction offers arbitrary: acc)
  case Nil
  then show ?case by simp
next
  case (Cons x offers)
  have "py_min (dict_get acc (fst x) PosInf) (snd x) \<noteq> NaN"
  proof (cases "map_of acc (fst x)")
    case None
    then show ?thesis using py_min_cases [of PosInf "snd x"]
      by (auto simp: dict_get_def dest: py_lt_not_NaN)
  next
    case (Some v)
    then have "(fst x, v) \<in> set acc" by (rule map_of_SomeD)
    with Cons.prems have "v \<noteq> NaN" by auto
    with Some show ?thesis using py_min_cases [of v "snd x"]
      by (auto simp: dict_get_def dest: py_lt_not_NaN)
  qed
  with Cons.prems set_dict_set [of acc "fst x" "py_min (dict_get acc (fst x) PosInf) (snd x)"]
  have "\<forall>y \<in> set (offer_step acc x). snd y \<noteq> NaN"
    by (auto simp: offer_step_def)
  from Cons.IH [OF this] show ?case by simp
qed

lemmas int_eval =
  py_int_def strip_underscores_def strip_with_def is_c_space_def is_digit_def split_sign_def
  signed_digits_def digits_value_def int_max_str_digits_def

lemmas float_eval =
  py_float_def strip_underscores_def strip_with_def is_c_space_def is_digit_def split_sign_def
  signed_digits_def parse_decimal_def parse_exponent_def digits_value_def pow10_def
  mk_float_def overflow_bound_def py_lower_def lower_char_def

lemmas text_eval = py_strip_def strip_with_def is_space_def rouble_def

lemma parse_row_offer_row:
  "parse_row (offer_row q p a) =
     (case (case q of None \<Rightarrow> Inr 1
            | Some t \<Rightarrow> (case py_int t of None \<Rightarrow> Inl ValueError | Some n \<Rightarrow> Inr n)) of
        Inl e \<Rightarrow> Inl e
      | Inr n \<Rightarrow>
          (case py_float (py_strip (py_replace rouble [] p)) of
             None \<Rightarrow> Inr None
           | Some price \<Rightarrow>
               (case a of
                  None \<Rightarrow> Inr None
                | Some seller \<Rightarrow>
                    (case unit_price price n of
                       Inl e \<Rightarrow> Inl e
                     | Inr u \<Rightarrow> Inr (Some (seller, u))))))"
  by (auto simp: parse_row_def offer_row_def row_qty_def row_price_def
      split: option.splits sum.splits)

lemma row_fields_offer_row:
  "row_qty (offer_row q p a) =
     (case q of None \<Rightarrow> Inr 1
      | Some t \<Rightarrow> (case py_int t of None \<Rightarrow> Inl ValueError | Some n \<Rightarrow> Inr n))"
  "row_price (offer_row q p a) = py_float (py_strip (py_replace rouble [] p))"
  by (simp_all add: row_qty_def row_price_def offer_row_def)

lemma parse_single_fold:
  "parse_single_card_table page = Inr d
     \<Longrightarrow> d = foldl offer_step [] (accepted_offers (page_rows page))"
  by (auto simp: parse_single_card_table_def page_rows_def accepted_offers_def map_filter_simps
      split: html.splits option.splits if_splits dest: parse_rows_fold)


lemma parse_single_distinct: "parse_single_card_table page = Inr d \<Longrightarrow> distinct (map fst d)"
  by (drule parse_single_fold) (simp add: fold_offers_distinct)

lemma parse_single_no_NaN:
  "parse_single_card_table page = Inr d \<Longrightarrow> \<forall>x \<in> set d. snd x \<noteq> NaN"
  using fold_offers_no_NaN [of "[]"] by (auto dest!: parse_single_fold)


lemma example_quantities:
  "py_int ''1'' = Some 1" "py_int ''2'' = Some 2"
  by (simp_all add: int_eval)

lemma example_prices:
  "py_float (py_strip (py_replace rouble [] ''100'')) = Some (Fin 100)"
  "py_float (py_strip (py_replace rouble [] ''150'')) = Some (Fin 150)"
  "py_float (py_strip (py_replace rouble [] ''90'')) = Some (Fin 90)"
  "py_float (py_strip (py_replace rouble [] ''50'')) = Some (Fin 50)"
  "py_float (py_strip (py_replace rouble [] ''30'')) = Some (Fin 30)"
  "py_float (py_strip (py_replace rouble [] five_roubles)) = Some (Fin 5)"
  "py_float (py_strip (py_replace rouble [] ''n/a'')) = None"
  "py_float (py_strip (py_replace rouble [] ''nan'')) = Some NaN"
  "py_float (py_strip (py_replace rouble [] ''inf'')) = Some PosInf"
  by (simp_all add: five_roubles_def text_eval float_eval)

lemma example_unit_prices:
  "unit_price (Fin 100) 1 = Inr (Fin 100)"
  "unit_price (Fin 150) 2 = Inr (Fin 75)"
  "unit_price (Fin 5) 1 = Inr (Fin 5)"
  "unit_price (Fin 50) 1 = Inr (Fin 50)"
  "unit_price (Fin 30) 1 = Inr (Fin 30)"
  "unit_price NaN 1 = Inr NaN"
  "unit_price PosInf 1 = Inr PosInf"
  by (simp_all add: unit_price_def py_truediv_def mk_float_def overflow_bound_def)

lemmas row_eval =
  parse_row_offer_row example_quantities example_prices example_unit_prices
  option.case sum.case

lemma example_rows:
  "parse_row (offer_row (Some ''1'') ''100'' (Some ''A'')) = Inr (Some (''A'', Fin 100))"
  "parse_row (offer_row (Some ''2'') ''150'' (Some ''A'')) = Inr (Some (''A'', Fin 75))"
  "parse_row (offer_row None five_roubles (Some ''B'')) = Inr (Some (''B'', Fin 5))"
  "parse_row (offer_row (Some ''1'') ''90'' None) = Inr None"
  "parse_row (offer_row None ''n/a'' (Some ''A'')) = Inr None"
  "parse_row (offer_row None ''50'' (Some ''X'')) = Inr (Some (''X'', Fin 50))"
  "parse_row (offer_row None ''30'' (Some ''X'')) = Inr (Some (''X'', Fin 30))"
  "parse_row (offer_row None ''nan'' (Some ''A'')) = Inr (Some (''A'', NaN))"
  "parse_row (offer_row None ''inf'' (Some ''A'')) = Inr (Some (''A'', PosInf))"
  by (simp_all only: row_eval)

lemmas table_eval =
  parse_single_card_table_def parse_rows.simps example_rows dict_set.simps dict_get_def
  py_min_def py_lt.simps accepted_offers_def map_filter_simps page_rows_def

lemma example_page_parsed:
  "parse_single_card_table example_page = Inr [(''A'', Fin 75)]"
  "accepted_offers (page_rows example_page) = [(''A'', Fin 100), (''A'', Fin 75)]"
  by (simp_all add: example_page_def table_eval)




subsection \<open>Finite prices\<close>





subsection \<open>The unit price\<close>

lemma py_truediv_error: "0 < q \<Longrightarrow> py_truediv price q = Inl e \<Longrightarrow> e = OverflowError"
  by (auto simp: py_truediv_def split: if_splits)

lemma unit_price_error: "unit_price price q = Inl e \<Longrightarrow> e = OverflowError"
  by (auto simp: unit_price_def split: if_splits dest: py_truediv_error)

lemma parse_row_error: "parse_row tds = Inl e \<Longrightarrow> e = ValueError \<or> e = OverflowError"
  by (auto simp: parse_row_def row_qty_def split: if_splits sum.splits option.splits
      dest: unit_price_error)

lemma parse_rows_error: "parse_rows acc rows = Inl e \<Longrightarrow> \<exists>r \<in> set rows. parse_row r = Inl e"
  by (induction rows arbitrary: acc) (auto split: sum.splits option.splits)

lemma parse_single_error:
  "parse_single_card_table page = Inl e \<Longrightarrow> e = ValueError \<or> e = OverflowError"
  by (auto simp: parse_single_card_table_def split: html.splits option.splits if_splits
      dest!: parse_rows_error dest: parse_row_error)

lemma parse_row_unit:
  assumes "parse_row tds = Inr (Some (seller, u))"
  shows "\<exists>price q. row_qty tds = Inr q \<and> row_price tds = Some price
           \<and> u = (if 0 < q then float_div price (of_int q) else price)"
proof -
  from assms obtain price q where q: "row_qty tds = Inr q" and p: "row_price tds = Some price"
    and u: "unit_price price q = Inr u"
    by (auto simp: parse_row_def split: if_splits sum.splits option.splits)
  from u have "u = (if 0 < q then float_div price (of_int q) else price)"
    by (auto simp: unit_price_def py_truediv_def split: if_splits)
  with q p show ?thesis by blast
qed

text \<open>
  C7. The unit price is the price divided by the quantity when the quantity is positive
  and the price itself when the quantity is zero or negative; this holds for the unit
  price of every accepted row, and no row and no table raises ZeroDivisionError.
\<close>

theorem unit_price_guarded:
  "unit_price price q \<noteq> Inl ZeroDivisionError
   \<and> (0 < q \<longrightarrow> unit_price price q = py_truediv price q)
   \<and> (q \<le> 0 \<longrightarrow> unit_price price q = Inr price)
   \<and> (parse_row tds = Inr (Some (seller, u)) \<longrightarrow>
        (\<exists>p n. row_qty tds = Inr n \<and> row_price tds = Some p
           \<and> u = (if 0 < n then float_div p (of_int n) else p)))
   \<and> parse_row tds \<noteq> Inl ZeroDivisionError
   \<and> parse_single_card_table page \<noteq> Inl ZeroDivisionError"
proof (intro conjI impI)
  show "unit_price price q \<noteq> Inl ZeroDivisionError" by (auto dest: unit_price_error)
  show "parse_row tds \<noteq> Inl ZeroDivisionError" by (auto dest: parse_row_error)
  show "parse_single_card_table page \<noteq> Inl ZeroDivisionError" by (auto dest: parse_single_error)
  show "unit_price price q = py_truediv price q" if "0 < q" using that by (simp add: unit_price_def)
  show "unit_price price q = Inr price" if "q \<le> 0" using that by (simp add: unit_price_def)
  show "\<exists>p n. row_qty tds = Inr n \<and> row_price tds = Some p
           \<and> u = (if 0 < n then float_div p (of_int n) else p)"
    if "parse_row tds = Inr (Some (seller, u))" using that by (rule parse_row_unit)
qed

theorem unit_price_guarded_witness:
  "unit_price (Fin 150) 2 = Inr (Fin 75)
   \<and> unit_price (Fin 150) 0 = Inr (Fin 150)
   \<and> unit_price (Fin 150) (- 3) = Inr (Fin 150)
   \<and> parse_row (offer_row (Some ''2'') ''150'' (Some ''A'')) = Inr (Some (''A'', Fin 75))
   \<and> row_qty (offer_row (Some ''2'') ''150'' (Some ''A'')) = Inr 2
   \<and> row_price (offer_row (Some ''2'') ''150'' (Some ''A'')) = Some (Fin 150)
   \<and> float_div (Fin 150) 2 = Fin 75"
proof -
  have a: "unit_price (Fin 150) 2 = py_truediv (Fin 150) 2"
    using unit_price_guarded [of "Fin 150" 2] by simp
  have b: "unit_price (Fin 150) 0 = Inr (Fin 150)"
    using unit_price_guarded [of "Fin 150" 0] by simp
  have c: "unit_price (Fin 150) (- 3) = Inr (Fin 150)"
    using unit_price_guarded [of "Fin 150" "- 3"] by simp
  have d: "py_truediv (Fin 150) 2 = Inr (Fin 75)" "float_div (Fin 150) 2 = Fin 75"
    by (simp_all add: py_truediv_def mk_float_def overflow_bound_def)
  have e: "row_qty (offer_row (Some ''2'') ''150'' (Some ''A'')) = Inr 2"
    "row_price (offer_row (Some ''2'') ''150'' (Some ''A'')) = Some (Fin 150)"
    by (simp_all only: row_fields_offer_row example_quantities example_prices option.case)
  from a b c d e example_rows(2) show ?thesis by simp
qed

subsection \<open>A quantity that is no integer\<close>

text \<open>
  C3. The claim asks for the default quantity 1 when the text of the quantity span is no
  integer. The program calls \<^verbatim>\<open>int()\<close> on that text outside any \<^verbatim>\<open>try\<close>: on a row whose
  quantity reads \<^verbatim>\<open>4+\<close> the parser raises ValueError, and so does the loop of \<^verbatim>\<open>main\<close>.
\<close>

theorem unparsable_quantity_raises:
  "py_int ''4+'' = None
   \<and> parse_single_card_table (Markup (Some [offer_row (Some ''4+'') ''100'' (Some ''A'')]))
       = Inl ValueError
   \<and> main_loop []
       [(\<lparr>card_qty = 1, card_name = ''Counterspell'', card_normalized = ''counterspell'',
           card_set = []\<rparr>,
         Some (Markup (Some [offer_row (Some ''4+'') ''100'' (Some ''A'')])))] = Inl ValueError"
proof -
  have i: "py_int ''4+'' = None" by (simp add: int_eval)
  have r: "parse_row (offer_row (Some ''4+'') ''100'' (Some ''A'')) = Inl ValueError"
    by (simp only: parse_row_offer_row i option.case sum.case)
  have p: "parse_single_card_table (Markup (Some [offer_row (Some ''4+'') ''100'' (Some ''A'')]))
       = Inl ValueError"
    by (simp add: parse_single_card_table_def r)
  show ?thesis by (simp add: i p process_card_def)
qed

section \<open>The aggregator keeps the least price of each seller and card\<close>

lemma lookup_fold_offer:
  "lookup_price (fold_offer n sd (s, p)) s' m =
     (if s' = s \<and> m = n then Some (kept_price (lookup_price sd s n) p)
      else lookup_price sd s' m)"
  by (auto simp: fold_offer_def lookup_price_def dict_get_def map_of_dict_set Let_def
      kept_price_def split: option.splits)

lemma lookup_price_empty: "lookup_price [] s m = None"
  by (simp add: lookup_price_def)

lemma lookup_fold_prices:
  "distinct (map fst prices) \<Longrightarrow>
   lookup_price (fold_prices n sd prices) s m =
     (if m = n then (case map_of prices s of
                       None \<Rightarrow> lookup_price sd s n
                     | Some p \<Rightarrow> Some (kept_price (lookup_price sd s n) p))
      else lookup_price sd s m)"
  unfolding fold_prices_def
proof (induction prices arbitrary: sd)
  case Nil
  then show ?case by simp
next
  case (Cons x prices)
  obtain s0 p0 where x: "x = (s0, p0)" by (cases x)
  from Cons.prems x have d: "distinct (map fst prices)" and n: "map_of prices s0 = None"
    by (auto simp: map_of_eq_None_iff)
  show ?case
    using Cons.IH [OF d, of "fold_offer n sd (s0, p0)"] n
    by (auto simp: x lookup_fold_offer split: option.splits)
qed

lemma offers_for_append:
  "offers_for s m (seen @ tag_offers n prices) =
     offers_for s m seen @ (if m = n then prices_of s prices else [])"
  by (auto simp: offers_for_def tag_offers_def prices_of_def filter_map comp_def)

lemma prices_of_distinct:
  "distinct (map fst prices) \<Longrightarrow>
   prices_of s prices = (case map_of prices s of None \<Rightarrow> [] | Some p \<Rightarrow> [p])"
proof (induction prices)
  case Nil
  then show ?case by (simp add: prices_of_def)
next
  case (Cons x prices)
  then have "prices_of s prices = (case map_of prices s of None \<Rightarrow> [] | Some p \<Rightarrow> [p])" by simp
  moreover have "map_of prices (fst x) = None" using Cons.prems by (auto simp: map_of_eq_None_iff)
  ultimately show ?case by (cases x) (auto simp: prices_of_def)
qed

lemma is_least_not_NaN: "is_least v ps \<Longrightarrow> v \<noteq> NaN"
  by (cases v) (auto simp: is_least_def list_all_iff)

lemma is_least_snoc:
  assumes "is_least old ps" and "p \<noteq> NaN"
  shows "is_least (kept_price (Some old) p) (ps @ [p])"
proof (cases "py_lt p old")
  case True
  then have "py_le p old" by (rule py_lt_le)
  with assms(1) have "list_all (py_le p) ps"
    by (auto simp: is_least_def list_all_iff intro: py_le_trans)
  with True assms(2) show ?thesis by (simp add: kept_price_def is_least_def py_le_refl)
next
  case False
  from assms(1) have "old \<noteq> NaN" by (rule is_least_not_NaN)
  with False assms(2) have "py_le old p" by (simp add: not_py_lt_le)
  with False assms(1) show ?thesis by (simp add: kept_price_def is_least_def)
qed

lemma is_least_single: "p \<noteq> NaN \<Longrightarrow> is_least (kept_price None p) [p]"
  by (simp add: kept_price_def is_least_def py_le_refl)

lemma kept_price_le: "py_le old old \<Longrightarrow> py_le (kept_price (Some old) p) old"
  by (auto simp: kept_price_def py_lt_le)

lemma fold_prices_invariant:
  assumes inv: "\<And>s m. case lookup_price sd s m of
                    None \<Rightarrow> offers_for s m seen = []
                  | Some v \<Rightarrow> is_least v (offers_for s m seen)"
    and d: "distinct (map fst prices)"
    and nn: "\<forall>x \<in> set prices. snd x \<noteq> NaN"
  shows "case lookup_price (fold_prices n sd prices) s m of
           None \<Rightarrow> offers_for s m (seen @ tag_offers n prices) = []
         | Some v \<Rightarrow> is_least v (offers_for s m (seen @ tag_offers n prices))"
proof (cases "m = n")
  case False
  with inv [of s m] show ?thesis
    by (auto simp: lookup_fold_prices [OF d] offers_for_append split: option.splits)
next
  case True
  show ?thesis
  proof (cases "map_of prices s")
    case None
    with True inv [of s n] show ?thesis
      by (auto simp: lookup_fold_prices [OF d] offers_for_append prices_of_distinct [OF d]
          split: option.splits)
  next
    case (Some p)
    then have "(s, p) \<in> set prices" by (rule map_of_SomeD)
    with nn have p: "p \<noteq> NaN" by auto
    show ?thesis
    proof (cases "lookup_price sd s n")
      case None
      with inv [of s n] have "offers_for s n seen = []" by simp
      with None Some True p show ?thesis
        by (simp add: lookup_fold_prices [OF d] offers_for_append prices_of_distinct [OF d]
            is_least_single)
    next
      case (Some old)
      with inv [of s n] have "is_least old (offers_for s n seen)" by simp
      from is_least_snoc [OF this p] Some \<open>map_of prices s = Some p\<close> True show ?thesis
        by (simp add: lookup_fold_prices [OF d] offers_for_append prices_of_distinct [OF d])
    qed
  qed
qed

text \<open>
  C1. Let the stored price of every seller and card be the least of the offers folded so
  far for that pair (none stored where there was no offer). After folding the parse result
  of one more card the same holds with the new offers counted in. The fold stores, for a
  seller of the parse result, the offer where nothing was stored or the offer is strictly
  lower, and the stored price otherwise; it leaves every other pair alone; no stored
  price goes up. Folding 100 and then 80 for seller A leaves 80, and so does a later 100.
\<close>

theorem fold_prices_keeps_minimum:
  assumes "\<forall>s m. case lookup_price sd s m of
                    None \<Rightarrow> offers_for s m seen = []
                  | Some v \<Rightarrow> is_least v (offers_for s m seen)"
    and "parse_single_card_table page = Inr prices"
  shows "(\<forall>s m. case lookup_price (fold_prices n sd prices) s m of
            None \<Rightarrow> offers_for s m (seen @ tag_offers n prices) = []
          | Some v \<Rightarrow> is_least v (offers_for s m (seen @ tag_offers n prices)))
    \<and> (\<forall>s p. (s, p) \<in> set prices \<longrightarrow>
          lookup_price (fold_prices n sd prices) s n = Some (kept_price (lookup_price sd s n) p))
    \<and> (\<forall>s m. m \<noteq> n \<or> s \<notin> fst ` set prices \<longrightarrow>
          lookup_price (fold_prices n sd prices) s m = lookup_price sd s m)
    \<and> (\<forall>s m old. lookup_price sd s m = Some old \<longrightarrow>
          (\<exists>v. lookup_price (fold_prices n sd prices) s m = Some v \<and> py_le v old))
    \<and> lookup_price (fold_prices n (fold_prices n [] [(''A'', Fin 100)]) [(''A'', Fin 80)]) ''A'' n
        = Some (Fin 80)
    \<and> lookup_price (fold_prices n (fold_prices n (fold_prices n [] [(''A'', Fin 100)])
          [(''A'', Fin 80)]) [(''A'', Fin 100)]) ''A'' n = Some (Fin 80)"
proof -
  have d: "distinct (map fst prices)" using assms(2) by (rule parse_single_distinct)
  have nn: "\<forall>x \<in> set prices. snd x \<noteq> NaN" using assms(2) by (rule parse_single_no_NaN)
  have inv: "\<And>s m. case lookup_price sd s m of
                    None \<Rightarrow> offers_for s m seen = []
                  | Some v \<Rightarrow> is_least v (offers_for s m seen)"
    using assms(1) by blast
  have 1: "\<forall>s m. case lookup_price (fold_prices n sd prices) s m of
            None \<Rightarrow> offers_for s m (seen @ tag_offers n prices) = []
          | Some v \<Rightarrow> is_least v (offers_for s m (seen @ tag_offers n prices))"
    using fold_prices_invariant [OF inv d nn] by blast
  have 2: "\<forall>s p. (s, p) \<in> set prices \<longrightarrow>
          lookup_price (fold_prices n sd prices) s n = Some (kept_price (lookup_price sd s n) p)"
    using d by (auto simp: lookup_fold_prices)
  have 3: "\<forall>s m. m \<noteq> n \<or> s \<notin> fst ` set prices \<longrightarrow>
          lookup_price (fold_prices n sd prices) s m = lookup_price sd s m"
    by (auto simp: lookup_fold_prices [OF d] image_iff split: option.splits dest!: map_of_SomeD)
  have 4: "\<forall>s m old. lookup_price sd s m = Some old \<longrightarrow>
          (\<exists>v. lookup_price (fold_prices n sd prices) s m = Some v \<and> py_le v old)"
  proof (intro allI impI)
    fix s m old assume old: "lookup_price sd s m = Some old"
    with inv [of s m] have "old \<noteq> NaN" by (auto dest: is_least_not_NaN)
    then have r: "py_le old old" by (rule py_le_refl)
    then show "\<exists>v. lookup_price (fold_prices n sd prices) s m = Some v \<and> py_le v old"
      using old by (auto simp: lookup_fold_prices [OF d] kept_price_le split: option.splits)
  qed
  have 5: "lookup_price (fold_prices n (fold_prices n [] [(''A'', Fin 100)]) [(''A'', Fin 80)]) ''A'' n
        = Some (Fin 80)"
    "lookup_price (fold_prices n (fold_prices n (fold_prices n [] [(''A'', Fin 100)])
          [(''A'', Fin 80)]) [(''A'', Fin 100)]) ''A'' n = Some (Fin 80)"
    by (simp_all add: fold_prices_def lookup_fold_offer kept_price_def lookup_price_empty)
  from 1 2 3 4 5 show ?thesis by blast
qed

theorem fold_prices_keeps_minimum_witness:
  "parse_single_card_table example_page = Inr [(''A'', Fin 75)]
   \<and> parse_single_card_table (Markup (Some [offer_row (Some ''1'') ''100'' (Some ''A'')]))
       = Inr [(''A'', Fin 100)]
   \<and> lookup_price [] ''A'' ''counterspell'' = None
   \<and> lookup_price (fold_prices ''counterspell'' [] [(''A'', Fin 75)]) ''A'' ''counterspell''
       = Some (Fin 75)
   \<and> is_least (Fin 75)
       (offers_for ''A'' ''counterspell'' ([] @ tag_offers ''counterspell'' [(''A'', Fin 75)]))
   \<and> lookup_price
        (fold_prices ''counterspell'' (fold_prices ''counterspell'' [] [(''A'', Fin 75)])
           [(''A'', Fin 100)]) ''A'' ''counterspell''
       = Some (Fin 75)"
proof -
  have i: "\<forall>s m. case lookup_price [] s m of
                    None \<Rightarrow> offers_for s m [] = []
                  | Some v \<Rightarrow> is_least v (offers_for s m [])"
    by (simp add: lookup_price_empty offers_for_def)
  have p: "parse_single_card_table (Markup (Some [offer_row (Some ''1'') ''100'' (Some ''A'')]))
       = Inr [(''A'', Fin 100)]"
    by (simp add: table_eval)
  note t = fold_prices_keeps_minimum [OF i example_page_parsed(1), of "''counterspell''"]
  from t have a: "lookup_price (fold_prices ''counterspell'' [] [(''A'', Fin 75)]) ''A'' ''counterspell''
       = Some (Fin 75)"
    by (simp add: lookup_price_empty kept_price_def)
  from t have j: "\<forall>s m. case lookup_price (fold_prices ''counterspell'' [] [(''A'', Fin 75)]) s m of
            None \<Rightarrow> offers_for s m ([] @ tag_offers ''counterspell'' [(''A'', Fin 75)]) = []
          | Some v \<Rightarrow> is_least v (offers_for s m ([] @ tag_offers ''counterspell'' [(''A'', Fin 75)]))"
    by blast
  with a have b: "is_least (Fin 75)
       (offers_for ''A'' ''counterspell'' ([] @ tag_offers ''counterspell'' [(''A'', Fin 75)]))"
    by (metis option.simps(5))
  note u = fold_prices_keeps_minimum [OF j p, of "''counterspell''"]
  from u have "lookup_price
        (fold_prices ''counterspell'' (fold_prices ''counterspell'' [] [(''A'', Fin 75)])
           [(''A'', Fin 100)]) ''A'' ''counterspell''
       = Some (kept_price
           (lookup_price (fold_prices ''counterspell'' [] [(''A'', Fin 75)]) ''A'' ''counterspell'')
           (Fin 100))"
    by simp
  then have c: "lookup_price
        (fold_prices ''counterspell'' (fold_prices ''counterspell'' [] [(''A'', Fin 75)])
           [(''A'', Fin 100)]) ''A'' ''counterspell''
       = Some (Fin 75)"
    by (simp add: a kept_price_def)
  from a b c p show ?thesis by (simp add: example_page_parsed lookup_price_empty)
qed

section \<open>The order of the report\<close>

lemma mset_insort_lt: "mset (insort_lt lt key x ys) = add_mset x (mset ys)"
  by (induction ys) auto

lemma mset_py_sorted: "mset (py_sorted lt key xs) = mset xs"
  unfolding py_sorted_def by (induction xs) (auto simp: mset_insort_lt)

lemma mset_py_sorted_reverse: "mset (py_sorted_reverse lt key xs) = mset xs"
  by (simp add: py_sorted_reverse_def mset_py_sorted)

lemma set_insort_lt: "set (insort_lt lt key x ys) = insert x (set ys)"
  using mset_insort_lt [of lt key x ys, THEN arg_cong, of set_mset] by simp

lemma set_py_sorted: "set (py_sorted lt key xs) = set xs"
  using mset_py_sorted [of lt key xs, THEN arg_cong, of set_mset] by simp

lemma sorted_insort_lt:
  assumes asym: "\<And>a b. lt a b \<Longrightarrow> \<not> lt b a"
    and trans: "\<And>a b c. ok a \<Longrightarrow> ok b \<Longrightarrow> ok c \<Longrightarrow> \<not> lt b a \<Longrightarrow> \<not> lt c b \<Longrightarrow> \<not> lt c a"
    and ok: "ok (key x)" "\<forall>y \<in> set ys. ok (key y)"
    and sorted: "sorted_wrt (\<lambda>a b. \<not> lt (key b) (key a)) ys"
  shows "sorted_wrt (\<lambda>a b. \<not> lt (key b) (key a)) (insort_lt lt key x ys)"
  using ok(2) sorted
proof (induction ys)
  case Nil
  then show ?case by simp
next
  case (Cons y ys)
  show ?case
  proof (cases "lt (key y) (key x)")
    case True
    then have "\<not> lt (key x) (key y)" by (rule asym)
    with True Cons show ?thesis by (auto simp: set_insort_lt)
  next
    case False
    have "\<not> lt (key z) (key x)" if "z \<in> set ys" for z
    proof -
      from Cons.prems that have "\<not> lt (key z) (key y)" "ok (key y)" "ok (key z)" by auto
      with False ok(1) show ?thesis using trans [of "key x" "key y" "key z"] by blast
    qed
    with False Cons.prems show ?thesis by auto
  qed
qed

lemma sorted_py_sorted:
  assumes asym: "\<And>a b. lt a b \<Longrightarrow> \<not> lt b a"
    and trans: "\<And>a b c. ok a \<Longrightarrow> ok b \<Longrightarrow> ok c \<Longrightarrow> \<not> lt b a \<Longrightarrow> \<not> lt c b \<Longrightarrow> \<not> lt c a"
    and ok: "\<forall>y \<in> set xs. ok (key y)"
  shows "sorted_wrt (\<lambda>a b. \<not> lt (key b) (key a)) (py_sorted lt key xs)"
  using ok
proof (induction xs)
  case Nil
  then show ?case by (simp add: py_sorted_def)
next
  case (Cons x xs)
  then have s: "sorted_wrt (\<lambda>a b. \<not> lt (key b) (key a)) (py_sorted lt key xs)" by simp
  from Cons.prems have o: "ok (key x)" "\<forall>y \<in> set (py_sorted lt key xs). ok (key y)"
    by (simp_all add: set_py_sorted)
  have "py_sorted lt key (x # xs) = insort_lt lt key x (py_sorted lt key xs)"
    by (simp add: py_sorted_def)
  with sorted_insort_lt [of lt ok, OF asym trans o s] show ?case by simp
qed

lemma by_coverage_descending:
  "sorted_wrt (\<lambda>a b. length (snd b) \<le> length (snd a)) (by_coverage sd)"
proof -
  have "sorted_wrt (\<lambda>a b. \<not> length (snd b) < length (snd a))
          (py_sorted (<) (\<lambda>x. length (snd x)) (rev sd))"
    by (rule sorted_py_sorted [where ok = "\<lambda>k. True"]) auto
  then have "sorted_wrt (\<lambda>a b. \<not> length (snd a) < length (snd b)) (by_coverage sd)"
    by (simp add: by_coverage_def py_sorted_reverse_def sorted_wrt_rev)
  then show ?thesis by (rule sorted_wrt_mono_rel [rotated]) auto
qed

lemma py_le_trans_neg:
  "a \<noteq> NaN \<Longrightarrow> b \<noteq> NaN \<Longrightarrow> c \<noteq> NaN \<Longrightarrow> \<not> py_lt b a \<Longrightarrow> \<not> py_lt c b \<Longrightarrow> \<not> py_lt c a"
  by (cases a; cases b; cases c) auto

lemma py_lt_asym: "py_lt a b \<Longrightarrow> \<not> py_lt b a"
  by (cases a; cases b) auto

lemma by_price_ascending:
  assumes "\<forall>y \<in> set cards. snd y \<noteq> NaN"
  shows "price_ascending (by_price cards)"
proof -
  have "sorted_wrt (\<lambda>a b. \<not> py_lt (snd b) (snd a)) (py_sorted py_lt snd cards)"
  proof (rule sorted_py_sorted [where ok = "\<lambda>k. k \<noteq> NaN"])
    show "\<And>a b. py_lt a b \<Longrightarrow> \<not> py_lt b a" by (rule py_lt_asym)
    show "\<And>a b c. a \<noteq> NaN \<Longrightarrow> b \<noteq> NaN \<Longrightarrow> c \<noteq> NaN \<Longrightarrow> \<not> py_lt b a \<Longrightarrow> \<not> py_lt c b
            \<Longrightarrow> \<not> py_lt c a"
      by (rule py_le_trans_neg)
    show "\<forall>y \<in> set cards. snd y \<noteq> NaN" by (rule assms)
  qed
  moreover have "py_le (snd a) (snd b)"
    if "a \<in> set (py_sorted py_lt snd cards)" "b \<in> set (py_sorted py_lt snd cards)"
      "\<not> py_lt (snd b) (snd a)" for a b
  proof -
    from that assms have "snd a \<noteq> NaN" "snd b \<noteq> NaN" by (simp_all add: set_py_sorted)
    with that(3) show ?thesis by (simp add: not_py_lt_le)
  qed
  ultimately show ?thesis
    unfolding price_ascending_def by_price_def by (rule sorted_wrt_mono_rel [rotated]) 
qed

lemma mset_by_price: "mset (by_price cards) = mset cards"
  by (simp add: by_price_def mset_py_sorted)

lemma mset_by_coverage: "mset (by_coverage sd) = mset sd"
  by (simp add: by_coverage_def mset_py_sorted_reverse)

lemma set_by_coverage: "set (by_coverage sd) = set sd"
  using mset_by_coverage [of sd, THEN arg_cong, of set_mset] by simp

subsection \<open>The loop of main keeps the table well formed\<close>

lemma well_formed_empty: "well_formed []"
  by (simp add: well_formed_def)

lemma well_formed_entry:
  assumes "well_formed sd"
  shows "distinct (map fst (dict_get sd s []))" and "\<forall>y \<in> set (dict_get sd s []). snd y \<noteq> NaN"
proof -
  have "distinct (map fst (dict_get sd s [])) \<and> (\<forall>y \<in> set (dict_get sd s []). snd y \<noteq> NaN)"
  proof (cases "map_of sd s")
    case None
    then show ?thesis by (simp add: dict_get_def)
  next
    case (Some cards)
    then have "(s, cards) \<in> set sd" by (rule map_of_SomeD)
    with assms have "distinct (map fst cards) \<and> (\<forall>y \<in> set cards. snd y \<noteq> NaN)"
      unfolding well_formed_def list_all_iff by fastforce
    with Some show ?thesis by (simp add: dict_get_def)
  qed
  then show "distinct (map fst (dict_get sd s []))"
    and "\<forall>y \<in> set (dict_get sd s []). snd y \<noteq> NaN" by simp_all
qed

lemma well_formed_dict_set:
  assumes "well_formed sd" and "distinct (map fst cards)" and "\<forall>y \<in> set cards. snd y \<noteq> NaN"
  shows "well_formed (dict_set sd s cards)"
proof -
  have "distinct (map fst (snd x)) \<and> (\<forall>y \<in> set (snd x). snd y \<noteq> NaN)"
    if "x \<in> set (dict_set sd s cards)" for x
  proof -
    from that set_dict_set [of sd s cards] have "x = (s, cards) \<or> x \<in> set sd" by auto
    with assms show ?thesis unfolding well_formed_def list_all_iff by auto
  qed
  moreover from assms(1) have "distinct (map fst (dict_set sd s cards))"
    by (simp add: well_formed_def distinct_dict_set)
  ultimately show ?thesis unfolding well_formed_def list_all_iff by blast
qed

lemma well_formed_fold_offer:
  assumes "well_formed sd" and "snd x \<noteq> NaN"
  shows "well_formed (fold_offer n sd x)"
proof -
  obtain s p where x: "x = (s, p)" by (cases x)
  let ?cards = "dict_get sd s []"
  note e = well_formed_entry [OF assms(1), of s]
  have 1: "well_formed (dict_set sd s ?cards)"
    by (rule well_formed_dict_set [OF assms(1) e])
  have "\<forall>y \<in> set (dict_set ?cards n p). snd y \<noteq> NaN"
    using e(2) assms(2) set_dict_set [of ?cards n p] by (auto simp: x)
  with e(1) have 2: "well_formed (dict_set sd s (dict_set ?cards n p))"
    by (intro well_formed_dict_set [OF assms(1)] distinct_dict_set)
  from 1 2 show ?thesis
    by (simp add: x fold_offer_def Let_def split: option.splits)
qed

lemma well_formed_fold_prices:
  "well_formed sd \<Longrightarrow> \<forall>x \<in> set prices. snd x \<noteq> NaN \<Longrightarrow> well_formed (fold_prices n sd prices)"
  unfolding fold_prices_def
  by (induction prices arbitrary: sd) (auto simp: well_formed_fold_offer)

lemma well_formed_process_card:
  "well_formed sd \<Longrightarrow> process_card sd x = Inr sd' \<Longrightarrow> well_formed sd'"
  by (auto simp: process_card_def split: prod.splits option.splits if_splits sum.splits
      dest: parse_single_no_NaN intro!: well_formed_fold_prices)

lemma well_formed_main_loop:
  "well_formed sd \<Longrightarrow> main_loop sd xs = Inr sd' \<Longrightarrow> well_formed sd'"
  by (induction xs arbitrary: sd) (auto split: sum.splits dest: well_formed_process_card)

lemma coverage_descending_detail: "coverage_descending (console_detail sd)"
  using by_coverage_descending [of sd]
  by (simp add: coverage_descending_def console_detail_def sorted_wrt_map)

lemma coverage_descending_summary: "coverage_descending (console_summary sd)"
  using by_coverage_descending [of sd, THEN sorted_wrt_filter, of "\<lambda>x. 1 \<le> length (snd x)"]
  by (simp add: coverage_descending_def console_summary_def sorted_wrt_map)

lemma detail_blocks:
  assumes "well_formed sd" and "b \<in> set (console_detail sd)"
  shows "\<exists>cards. (fst b, cards) \<in> set sd \<and> fst (snd b) = length cards
           \<and> distinct (map fst cards) \<and> mset (snd (snd b)) = mset cards
           \<and> price_ascending (snd (snd b))"
proof -
  from assms(2) obtain x where x: "x \<in> set sd"
    and b: "b = (fst x, length (snd x), by_price (snd x))"
    by (auto simp: console_detail_def set_by_coverage)
  from assms(1) x have "distinct (map fst (snd x))" "\<forall>y \<in> set (snd x). snd y \<noteq> NaN"
    by (auto simp: well_formed_def list_all_iff)
  with x b show ?thesis
    by (intro exI [of _ "snd x"]) (simp add: mset_by_price by_price_ascending)
qed

lemma summary_lines:
  assumes "l \<in> set (console_summary sd)"
  shows "\<exists>cards. (fst l, cards) \<in> set sd \<and> fst (snd l) = length cards
           \<and> snd (snd l) = py_sum (map snd cards)"
proof -
  from assms obtain x where "x \<in> set sd"
    and "l = (fst x, length (snd x), py_sum (map snd (snd x)))"
    by (auto simp: console_summary_def set_by_coverage)
  then show ?thesis by (intro exI [of _ "snd x"]) simp
qed

lemma example_run_result:
  "main_loop [] example_run = Inr [(''X'', [(''brainstorm'', Fin 50), (''ponder'', Fin 30)])]"
  by (simp add: example_run_def process_card_def table_eval fold_prices_def fold_offer_def)

lemma example_report:
  "console_summary [(''X'', [(''brainstorm'', Fin 50), (''ponder'', Fin 30)])]
     = [(''X'', 2, Fin 80)]"
  "console_detail [(''X'', [(''brainstorm'', Fin 50), (''ponder'', Fin 30)])]
     = [(''X'', 2, [(''ponder'', Fin 30), (''brainstorm'', Fin 50)])]"
  by (simp_all add: console_summary_def console_detail_def by_coverage_def by_price_def
      py_sorted_reverse_def py_sorted_def py_sum_def mk_float_def overflow_bound_def)

text \<open>
  C6. For the table that any run of the loop of \<^verbatim>\<open>main\<close> ends with: the blocks of the
  printed detail and the lines of the printed summary come in descending order of the
  number of covered cards; the blocks written to the file are those printed; every seller
  has one block, whose count is the number of that seller's cards (all distinct) and whose
  card lines are that seller's cards in ascending order of price; a summary line holds
  the count and the sum of the prices. For two cards that seller X alone offers, at 50 and
  at 30, the summary shows 2 cards and 80, and the detail lists the card at 30 first.
\<close>

theorem report_order:
  assumes "main_loop [] fetched = Inr sd"
  shows "coverage_descending (console_detail sd)
    \<and> coverage_descending (console_summary sd)
    \<and> file_detail sd = console_detail sd
    \<and> mset (map fst (console_detail sd)) = mset (map fst sd)
    \<and> (\<forall>b \<in> set (console_detail sd).
          \<exists>cards. (fst b, cards) \<in> set sd \<and> fst (snd b) = length cards
            \<and> distinct (map fst cards) \<and> mset (snd (snd b)) = mset cards
            \<and> price_ascending (snd (snd b)))
    \<and> (\<forall>l \<in> set (console_summary sd).
          \<exists>cards. (fst l, cards) \<in> set sd \<and> fst (snd l) = length cards
            \<and> snd (snd l) = py_sum (map snd cards))
    \<and> main_loop [] example_run
        = Inr [(''X'', [(''brainstorm'', Fin 50), (''ponder'', Fin 30)])]
    \<and> console_summary [(''X'', [(''brainstorm'', Fin 50), (''ponder'', Fin 30)])]
        = [(''X'', 2, Fin 80)]
    \<and> console_detail [(''X'', [(''brainstorm'', Fin 50), (''ponder'', Fin 30)])]
        = [(''X'', 2, [(''ponder'', Fin 30), (''brainstorm'', Fin 50)])]"
proof -
  have wf: "well_formed sd" using well_formed_empty assms by (rule well_formed_main_loop)
  have 1: "mset (map fst (console_detail sd)) = mset (map fst sd)"
    using mset_by_coverage [of sd, THEN arg_cong, of "image_mset fst"]
    by (simp add: console_detail_def comp_def)
  have 2: "file_detail sd = console_detail sd" by (simp add: file_detail_def console_detail_def)
  from coverage_descending_detail coverage_descending_summary 1 2 detail_blocks [OF wf]
    summary_lines example_run_result example_report
  show ?thesis by blast
qed

theorem report_order_witness:
  "main_loop [] example_run = Inr [(''X'', [(''brainstorm'', Fin 50), (''ponder'', Fin 30)])]
   \<and> file_detail [(''X'', [(''brainstorm'', Fin 50), (''ponder'', Fin 30)])]
       = [(''X'', 2, [(''ponder'', Fin 30), (''brainstorm'', Fin 50)])]
   \<and> price_ascending [(''ponder'', Fin 30), (''brainstorm'', Fin 50)]
   \<and> coverage_descending [(''X'', 2 :: nat, Fin 80)]"
proof -
  note t = report_order [OF example_run_result]
  from t have a: "file_detail [(''X'', [(''brainstorm'', Fin 50), (''ponder'', Fin 30)])]
       = [(''X'', 2, [(''ponder'', Fin 30), (''brainstorm'', Fin 50)])]"
    by (simp add: example_report)
  from t have "\<forall>b \<in> set (console_detail [(''X'', [(''brainstorm'', Fin 50), (''ponder'', Fin 30)])]).
      price_ascending (snd (snd b))"
    by blast
  then have b: "price_ascending [(''ponder'', Fin 30), (''brainstorm'', Fin 50)]"
    by (simp add: example_report)
  from t have "coverage_descending (console_summary [(''X'', [(''brainstorm'', Fin 50), (''ponder'', Fin 30)])])"
    by blast
  then have c: "coverage_descending [(''X'', 2 :: nat, Fin 80)]" by (simp add: example_report)
  from a b c example_run_result show ?thesis by simp
qed

section \<open>The search URL\<close>

lemma replace_space:
  "py_replace '' '' ''+'' s = map (\<lambda>x. if x = CHR '' '' then CHR ''+'' else x) s"
  by (induction s) auto

text \<open>
  C9 (amended). The URL is the fixed endpoint followed by the card name (and, when the
  set code is not empty, a space and the set code in parentheses) in which every space is
  replaced by a plus sign and every other character is left as it is; the URL holds no
  space.
\<close>

theorem search_url_replaces_spaces:
  "search_url c =
     endpoint @ map (\<lambda>x. if x = CHR '' '' then CHR ''+'' else x)
       (if card_set c = [] then card_name c else card_name c @ '' ('' @ card_set c @ '')'')
   \<and> endpoint = ''https://topdeck.ru/apps/toptrade/singles/search?q=''
   \<and> CHR '' '' \<notin> set (search_url c)"
  by (auto simp: search_url_def card_query_def replace_space endpoint_def)

theorem search_url_replaces_spaces_example:
  "search_url \<lparr>card_qty = 2, card_name = ''Lightning Bolt'', card_normalized = ''lightning bolt'',
      card_set = ''m10''\<rparr>
     = ''https://topdeck.ru/apps/toptrade/singles/search?q=Lightning+Bolt+(m10)''"
  using search_url_replaces_spaces
    [of "\<lparr>card_qty = 2, card_name = ''Lightning Bolt'', card_normalized = ''lightning bolt'',
      card_set = ''m10''\<rparr>"]
  by simp

text \<open>
  The claim as stated says URL-encoded. A name with an ampersand goes into the URL as it
  is, where the encoding would write \<^verbatim>\<open>%26\<close>.
\<close>

theorem search_url_not_encoded:
  "search_url \<lparr>card_qty = 1, card_name = ''Minsc & Boo'', card_normalized = ''minsc & boo'',
       card_set = []\<rparr>
     = ''https://topdeck.ru/apps/toptrade/singles/search?q=Minsc+&+Boo''
   \<and> endpoint @ spec_url_encode (card_query \<lparr>card_qty = 1, card_name = ''Minsc & Boo'',
       card_normalized = ''minsc & boo'', card_set = []\<rparr>)
     = ''https://topdeck.ru/apps/toptrade/singles/search?q=Minsc+%26+Boo''
   \<and> search_url \<lparr>card_qty = 1, card_name = ''Minsc & Boo'', card_normalized = ''minsc & boo'',
       card_set = []\<rparr>
     \<noteq> endpoint @ spec_url_encode (card_query \<lparr>card_qty = 1, card_name = ''Minsc & Boo'',
       card_normalized = ''minsc & boo'', card_set = []\<rparr>)"
  by (simp add: search_url_def card_query_def endpoint_def spec_url_encode_def unreserved_def
      hex_digit_def)

end
